theory Spec2Isabelle
  imports Main
begin

section \<open>JavaScript values and errors\<close>

text \<open>
  Tool arguments and tool results are JSON values.  The argument payload of a tool call
  arrives as a string that the dispatcher hands to JSON.parse, and the result of a handler
  leaves through JSON.stringify: the model works on the values between the two, so a tool
  call carries what JSON.parse makes of its argument string (nothing when JSON.parse throws)
  and a tool output carries the value given to JSON.stringify.
\<close>

datatype json =
    JUndefined
  | JNull
  | JBool bool
  | JNum int
  | JStr string
  | JArr "json list"
  | JObj "(string \<times> json) list"

text \<open>
  What can be thrown while an event is handled: the SyntaxError of JSON.parse, the
  TypeError of calling or reading through undefined, an Error thrown by a handler (with its
  message), a rejected request of the model API, and the error of a CronJob constructor
  that does not accept its arguments.
\<close>

datatype error =
    SyntaxError
  | TypeError
  | Error string
  | APIError string
  | CronError

section \<open>agent.ts: the function table\<close>

text \<open>
  A handler receives the parsed arguments and the thread id; it may read and change the
  state of the process (of type \<open>'w\<close>), and it returns a value or throws.
\<close>

type_synonym 'w handler = "json \<Rightarrow> string \<Rightarrow> 'w \<Rightarrow> (error + json) \<times> 'w"

text \<open>
  The parameter schemas of the registered tools are flat zod objects whose fields are
  strings or bounded integers, some of them optional (or with a default).
\<close>

datatype zod_type = ZString | ZNumberInt "int option" "int option"

type_synonym zod_object = "(string \<times> zod_type \<times> bool) list"

text \<open>
  The description of a tool that an assistant is created with; \<open>parameters\<close> stands for the
  JSON schema that zodToJsonSchema makes of the zod object.
\<close>

record tool =
  tool_name :: string
  description :: string
  parameters :: zod_object

text \<open>
  The two tables of the module.  \<open>functions_table\<close> is the lookup \<open>functions[name]\<close>: it gives
  nothing where that lookup gives undefined.
\<close>

record 'w registry =
  functions_table :: "string \<Rightarrow> 'w handler option"
  tools_table :: "string \<Rightarrow> tool option"

definition registerFunction ::
  "string \<Rightarrow> string \<Rightarrow> zod_object \<Rightarrow> 'w handler \<Rightarrow> 'w registry \<Rightarrow> 'w registry" where
  "registerFunction name descr params fn reg =
     reg\<lparr>functions_table := (functions_table reg)(name \<mapsto> fn),
         tools_table := (tools_table reg)(name \<mapsto>
           \<lparr>tool_name = name, description = descr, parameters = params\<rparr>)\<rparr>"



section \<open>agent.ts: the event handler\<close>

record tool_call =
  tc_id :: string
  tc_name :: string
  tc_arguments :: "json option"

record tool_output =
  tool_call_id :: string
  output_value :: json

text \<open>
  The run object of an event: its id, its thread, the tool calls of its required action
  (when it has one) and the message of its last error (when it has one).
\<close>

record run =
  run_id :: string
  thread_id :: string
  required_action :: "tool_call list option"
  last_error :: "string option"

record assistant_stream_event =
  event :: string
  data :: run

datatype message_content = Text string | ImageFile string | ImageUrl string | Refusal string

record message =
  role :: string
  content :: "message_content list"

text \<open>
  The model API as the event handler uses it: listing the messages of a thread (which may
  reject), and submitting tool outputs, which gives a stream of further events that may
  break off with an error.
\<close>

record client =
  messages_list :: "string \<Rightarrow> error + message list"
  submitToolOutputsStream ::
    "string \<Rightarrow> string \<Rightarrow> tool_output list \<Rightarrow> assistant_stream_event list \<times> error option"

text \<open>
  What handling an event does to the outside: calling the caller's \<open>resolve\<close>, writing to
  console.error, submitting a batch of tool outputs (thread, run, outputs), and emitting an
  event of the resumed stream to the listener again.  The informational console.log lines
  are left out.
\<close>

datatype effect =
    Resolve string
  | LogError string error
  | Submit string string "tool_output list"
  | Emit assistant_stream_event

text \<open>The callback mapped over the tool calls of a batch.\<close>

definition call_tool ::
  "'w registry \<Rightarrow> string \<Rightarrow> tool_call \<Rightarrow> 'w \<Rightarrow> (error + tool_output) \<times> 'w" where
  "call_tool reg threadId toolCall w =
     (case tc_arguments toolCall of
        None \<Rightarrow> (Inl SyntaxError, w)
      | Some args \<Rightarrow>
          (case functions_table reg (tc_name toolCall) of
             None \<Rightarrow> (Inl TypeError, w)
           | Some fn \<Rightarrow>
               (case fn args threadId w of
                  (Inl e, w') \<Rightarrow> (Inl e, w')
                | (Inr result, w') \<Rightarrow>
                    (Inr \<lparr>tool_call_id = tc_id toolCall, output_value = result\<rparr>, w'))))"

text \<open>
  The map starts the callback of every call of the batch, and the run time decides two
  orders: the order in which the calls run (a call with a synchronous handler runs at once,
  one whose handler waits for an answer of the API runs on when the answer comes), and the
  order in time in which the promises of the calls settle (a call that throws at once
  settles before one that awaits a result).  Both are parameters of the model, each a list
  of positions in the batch: the positions count in the order of their first mention in the
  list, and those it does not mention come after them, in the order of the batch.
\<close>

record timing =
  run_order :: "nat list"
  settle_order :: "nat list"

definition schedule :: "nat \<Rightarrow> nat list \<Rightarrow> nat list" where
  "schedule n order = rev (remdups (rev (filter (\<lambda>i. i < n) order @ [0..<n])))"

text \<open>
  Each call runs as one step at its place in the schedule of the runs, on the state the
  steps before it left.  The result lists the positions with their outcomes.
\<close>

fun run_in_order ::
  "'w registry \<Rightarrow> string \<Rightarrow> tool_call list \<Rightarrow> nat list \<Rightarrow> 'w \<Rightarrow>
     (nat \<times> (error + tool_output)) list \<times> 'w" where
  "run_in_order reg threadId calls [] w = ([], w)"
| "run_in_order reg threadId calls (i # rest) w =
     (if i < length calls
      then (case call_tool reg threadId (calls ! i) w of
              (r, w') \<Rightarrow>
                (case run_in_order reg threadId calls rest w' of
                   (rs, w'') \<Rightarrow> ((i, r) # rs, w'')))
      else run_in_order reg threadId calls rest w)"

text \<open>The outcomes of the calls in the order in time in which their promises settle.\<close>

definition in_time_order :: "(nat \<times> 'a) list \<Rightarrow> nat list \<Rightarrow> (nat \<times> 'a) list" where
  "in_time_order outcomes sched =
     concat (map (\<lambda>i. case map_of outcomes i of None \<Rightarrow> [] | Some r \<Rightarrow> [(i, r)]) sched)"

definition settlements ::
  "'w registry \<Rightarrow> string \<Rightarrow> tool_call list \<Rightarrow> timing \<Rightarrow> 'w \<Rightarrow>
     (nat \<times> (error + tool_output)) list" where
  "settlements reg threadId calls tm w =
     in_time_order
       (fst (run_in_order reg threadId calls (schedule (length calls) (run_order tm)) w))
       (schedule (length calls) (settle_order tm))"

text \<open>
  Promise.all over the promises of n calls, given what they settled with in the order in
  time: it rejects with the rejection that comes first in time; without a rejection it
  resolves, once every call has settled, with the values in the order of the batch; and it
  stays pending otherwise.
\<close>

fun first_rejection :: "(nat \<times> (error + 'a)) list \<Rightarrow> error option" where
  "first_rejection [] = None"
| "first_rejection ((i, Inl e) # rs) = Some e"
| "first_rejection ((i, Inr x) # rs) = first_rejection rs"

definition value_of :: "(nat \<times> (error + 'a)) list \<Rightarrow> nat \<Rightarrow> 'a option" where
  "value_of rs i = (case map_of rs i of Some (Inr x) \<Rightarrow> Some x | _ \<Rightarrow> None)"

definition promise_all :: "nat \<Rightarrow> (nat \<times> (error + 'a)) list \<Rightarrow> (error + 'a list) option" where
  "promise_all n rs =
     (case first_rejection rs of
        Some e \<Rightarrow> Some (Inl e)
      | None \<Rightarrow> map_option Inr (those (map (value_of rs) [0..<n])))"

definition submitToolOutputs ::
  "client \<Rightarrow> tool_output list \<Rightarrow> string \<Rightarrow> string \<Rightarrow> effect list" where
  "submitToolOutputs cl toolOutputs runId threadId =
     (case submitToolOutputsStream cl threadId runId toolOutputs of
        (events, err) \<Rightarrow>
          Submit threadId runId toolOutputs # map Emit events @
          (case err of None \<Rightarrow> [] | Some e \<Rightarrow> [LogError ''Error submitting tool outputs:'' e]))"

text \<open>The tool calls of the required action of a run, or none.\<close>

definition tool_calls :: "run \<Rightarrow> tool_call list" where
  "tool_calls dat = (case required_action dat of None \<Rightarrow> [] | Some cs \<Rightarrow> cs)"

definition handleRequiresAction ::
  "client \<Rightarrow> 'w registry \<Rightarrow> run \<Rightarrow> string \<Rightarrow> string \<Rightarrow> timing \<Rightarrow> 'w \<Rightarrow> effect list \<times> 'w"
  where
  "handleRequiresAction cl reg dat runId threadId tm w =
     (case run_in_order reg threadId (tool_calls dat)
             (schedule (length (tool_calls dat)) (run_order tm)) w of
        (outcomes, w') \<Rightarrow>
          (case promise_all (length (tool_calls dat))
                  (in_time_order outcomes
                     (schedule (length (tool_calls dat)) (settle_order tm))) of
             None \<Rightarrow> ([], w')
           | Some (Inl e) \<Rightarrow> ([LogError ''Error processing required action:'' e], w')
           | Some (Inr toolOutputs) \<Rightarrow>
               (submitToolOutputs cl toolOutputs runId threadId, w')))"

text \<open>
  The listener of the events of a run.  The orders in which the calls of a batch run and
  settle are passed on to the handling of a required action.
\<close>

definition onEvent ::
  "client \<Rightarrow> 'w registry \<Rightarrow> timing \<Rightarrow> assistant_stream_event \<Rightarrow> 'w \<Rightarrow> effect list \<times> 'w"
  where
  "onEvent cl reg tm ev w =
     (if event ev = ''thread.run.requires_action'' then
        handleRequiresAction cl reg (data ev) (run_id (data ev)) (thread_id (data ev)) tm w
      else if event ev = ''thread.run.completed'' then
        (case messages_list cl (thread_id (data ev)) of
           Inl e \<Rightarrow> ([LogError ''Error handling event:'' e], w)
         | Inr messages \<Rightarrow>
             (case find (\<lambda>m. role m = ''assistant'') messages of
                None \<Rightarrow> ([], w)
              | Some m \<Rightarrow>
                  (case content m of
                     [] \<Rightarrow> ([], w)
                   | answer # _ \<Rightarrow>
                       (case answer of Text v \<Rightarrow> ([Resolve v], w) | _ \<Rightarrow> ([], w)))))
      else if event ev = ''thread.run.failed'' then
        ([Resolve (''Der Run ist fehlgeschlagen: '' @
            (case last_error (data ev) of None \<Rightarrow> ''undefined'' | Some m \<Rightarrow> m))], w)
      else ([], w))"

text \<open>The values the caller's promise was resolved with, and the batches submitted.\<close>

fun resolved :: "effect list \<Rightarrow> string list" where
  "resolved [] = []"
| "resolved (Resolve v # es) = v # resolved es"
| "resolved (_ # es) = resolved es"

fun submitted :: "effect list \<Rightarrow> tool_output list list" where
  "submitted [] = []"
| "submitted (Submit t r outs # es) = outs # submitted es"
| "submitted (_ # es) = submitted es"

section \<open>index.ts: the store, the timers and the agent cache\<close>

record Tenant =
  number :: string
  system :: string
  timezone :: string

record Job =
  job_id :: int
  tenant :: string
  hour :: int
  minute :: int
  prompt :: string

text \<open>
  A CronJob object: its cron time (minute and hour of the pattern \<open>m h * * *\<close>), the job
  its tick callback closes over, its time zone (undefined when the store gave none), and
  whether it is running.  The constructor is called with start = true.  It belongs to the
  cron package, and whether it accepts a cron time and a time zone or throws is a parameter
  of the model.
\<close>

type_synonym cron_check = "int \<times> int \<Rightarrow> string option \<Rightarrow> bool"

record CronJob =
  cronTime :: "int \<times> int"
  onTick :: Job
  timeZone :: "string option"
  running :: bool

record Assistant =
  assistant_id :: string
  instructions :: string
  assistant_tools :: "string list"

text \<open>
  The state of the process and of the services it talks to: the two tables of the
  database, the table \<open>cronJobs\<close> from job ids to CronJob objects, the CronJob objects
  themselves (every object ever constructed, by address, so that a replaced object is still
  there and may still be running), the cache \<open>assistants\<close>, and on the side of the model
  API the tenant metadata of each thread and the stored assistants.
\<close>

record state =
  tenants :: "Tenant list"
  jobs :: "Job list"
  cronJobs :: "int \<Rightarrow> nat option"
  timers :: "CronJob list"
  assistants :: "string \<Rightarrow> Assistant option"
  api_threads :: "string \<Rightarrow> string option"
  api_assistants :: "string \<Rightarrow> Assistant option"

text \<open>
  The queries by tenant number: the first row of the tenant (or none), and the plucked
  columns \<open>timezone\<close> and \<open>system\<close> of it.
\<close>

definition select_tenant :: "state \<Rightarrow> string \<Rightarrow> Tenant option" where
  "select_tenant st n = find (\<lambda>x. number x = n) (tenants st)"

definition select_timezone :: "state \<Rightarrow> string \<Rightarrow> string option" where
  "select_timezone st n = map_option timezone (select_tenant st n)"

definition select_system :: "state \<Rightarrow> string \<Rightarrow> string option" where
  "select_system st n = map_option system (select_tenant st n)"


text \<open>Stopping the CronJob object at an address.\<close>

definition stop :: "nat \<Rightarrow> state \<Rightarrow> state" where
  "stop r st = st\<lparr>timers := (timers st)[r := (timers st ! r)\<lparr>running := False\<rparr>]\<rparr>"

text \<open>
  A registration: stop the CronJob object the table holds for the job id, read the time
  zone of the tenant, construct and start the new object, and store it in the table.  When
  the constructor throws, the old object is stopped already and the table still holds it.
\<close>

definition createPrompt :: "cron_check \<Rightarrow> Job option \<Rightarrow> state \<Rightarrow> (error + unit) \<times> state" where
  "createPrompt accepts job st =
     (case job of
        None \<Rightarrow> (Inr (), st)
      | Some j \<Rightarrow>
          (let st1 = (case cronJobs st (job_id j) of None \<Rightarrow> st | Some r \<Rightarrow> stop r st);
               tz = select_timezone st1 (tenant j)
           in if accepts (minute j, hour j) tz
              then (Inr (),
                    st1\<lparr>timers := timers st1 @
                           [\<lparr>cronTime = (minute j, hour j), onTick = j, timeZone = tz,
                             running = True\<rparr>],
                        cronJobs := (cronJobs st1)(job_id j \<mapsto> length (timers st1))\<rparr>)
              else (Inl CronError, st1)))"

text \<open>COALESCE(?, column): the bound value unless it is NULL (the argument was left out).\<close>

definition coalesce :: "'a option \<Rightarrow> 'a \<Rightarrow> 'a" where
  "coalesce a b = (case a of None \<Rightarrow> b | Some v \<Rightarrow> v)"


record edit_tenant_args =
  et_system :: "string option"
  et_timezone :: "string option"




text \<open>
  The update request for an assistant is sent and not awaited; the model applies it to the
  stored assistant at once, and a request for an unknown id changes nothing.
\<close>

definition assistants_update :: "string \<Rightarrow> string option \<Rightarrow> state \<Rightarrow> state" where
  "assistants_update aid instr st =
     (case api_assistants st aid of
        None \<Rightarrow> st
      | Some a \<Rightarrow>
          st\<lparr>api_assistants := (api_assistants st)(aid \<mapsto>
               (case instr of None \<Rightarrow> a | Some s \<Rightarrow> a\<lparr>instructions := s\<rparr>))\<rparr>)"

definition edit_tenant :: "edit_tenant_args \<Rightarrow> string \<Rightarrow> state \<Rightarrow> (error + nat) \<times> state" where
  "edit_tenant args threadId st =
     (case api_threads st threadId of
        None \<Rightarrow> (Inl (APIError ''No thread found''), st)
      | Some t \<Rightarrow>
          (let changes = length (filter (\<lambda>x. number x = t) (tenants st));
               st1 = st\<lparr>tenants := map (\<lambda>x. if number x = t
                         then x\<lparr>system := coalesce (et_system args) (system x),
                                timezone := coalesce (et_timezone args) (timezone x)\<rparr>
                         else x) (tenants st)\<rparr>
           in if changes > 0
              then (case assistants st1 t of
                      None \<Rightarrow> (Inl TypeError, st1)
                    | Some a \<Rightarrow>
                        (Inr changes,
                         assistants_update (assistant_id a) (select_system st1 t) st1))
              else (Inr changes, st1)))"

text \<open>The running CronJob objects whose callback belongs to a job id, by address.\<close>

definition live_timers :: "state \<Rightarrow> int \<Rightarrow> nat list" where
  "live_timers st j =
     filter (\<lambda>r. running (timers st ! r) \<and> job_id (onTick (timers st ! r)) = j)
       [0..<length (timers st)]"

text \<open>
  A sequence of registrations, in order, each on the state the previous one left, whether
  it returned or threw.
\<close>

definition register_all :: "cron_check \<Rightarrow> Job option list \<Rightarrow> state \<Rightarrow> state" where
  "register_all accepts js st = fold (\<lambda>j s. snd (createPrompt accepts j s)) js st"

text \<open>The registrations of a sequence that are for a given job id.\<close>

definition registrations_for :: "int \<Rightarrow> Job option list \<Rightarrow> Job list" where
  "registrations_for j js = filter (\<lambda>x. job_id x = j) (List.map_filter (\<lambda>x. x) js)"

section \<open>Well-formed timer tables and sample data\<close>

text \<open>
  The table \<open>cronJobs\<close> is well formed when every entry points to an existing CronJob object
  whose callback belongs to that job id, and every running object is one the table points
  to.
\<close>

definition timers_ok :: "state \<Rightarrow> bool" where
  "timers_ok st \<longleftrightarrow>
     (\<forall>j r. cronJobs st j = Some r \<longrightarrow>
        r < length (timers st) \<and> job_id (onTick (timers st ! r)) = j)
     \<and> (\<forall>r < length (timers st).
        running (timers st ! r) \<longrightarrow> cronJobs st (job_id (onTick (timers st ! r))) = Some r)"

text \<open>The CronJob object that a registration of a job constructs.\<close>

definition timer_for :: "state \<Rightarrow> Job \<Rightarrow> CronJob" where
  "timer_for st j =
     \<lparr>cronTime = (minute j, hour j), onTick = j, timeZone = select_timezone st (tenant j),
      running = True\<rparr>"

text \<open>
  Two handlers, a function table, two clients, some tool calls, three timings of a batch of
  two calls, and some events.
\<close>

definition ok_handler :: "unit handler" where
  "ok_handler args threadId w = (Inr (JStr ''ok''), w)"

definition failing_handler :: "unit handler" where
  "failing_handler args threadId w = (Inl (Error ''boom''), w)"

definition demo_registry :: "unit registry" where
  "demo_registry =
     registerFunction ''fails'' ''always throws'' [] failing_handler
       (registerFunction ''works'' ''always answers'' [(''id'', ZNumberInt None None, False)] ok_handler
          \<lparr>functions_table = Map.empty, tools_table = Map.empty\<rparr>)"

definition demo_client :: client where
  "demo_client =
     \<lparr>messages_list = (\<lambda>t. Inr [\<lparr>role = ''user'', content = [Text ''hello'']\<rparr>]),
      submitToolOutputsStream = (\<lambda>t r outs. ([], None))\<rparr>"

definition answering_client :: client where
  "answering_client =
     \<lparr>messages_list = (\<lambda>t. Inr [\<lparr>role = ''assistant'', content = [Text ''Guten Morgen'']\<rparr>,
                                 \<lparr>role = ''user'', content = [Text ''hello'']\<rparr>]),
      submitToolOutputsStream = (\<lambda>t r outs. ([], None))\<rparr>"

definition call_works :: tool_call where
  "call_works = \<lparr>tc_id = ''call_1'', tc_name = ''works'', tc_arguments = Some (JObj [])\<rparr>"

definition call_fails :: tool_call where
  "call_fails = \<lparr>tc_id = ''call_2'', tc_name = ''fails'', tc_arguments = Some (JObj [])\<rparr>"

definition call_unknown :: tool_call where
  "call_unknown = \<lparr>tc_id = ''call_3'', tc_name = ''nowhere'', tc_arguments = Some (JObj [])\<rparr>"

definition demo_run :: "tool_call list \<Rightarrow> run" where
  "demo_run cs =
     \<lparr>run_id = ''run_1'', thread_id = ''thread_1'', required_action = Some cs,
      last_error = None\<rparr>"

definition batch_order :: timing where
  "batch_order = \<lparr>run_order = [0, 1], settle_order = [0, 1]\<rparr>"

definition second_settles_first :: timing where
  "second_settles_first = \<lparr>run_order = [0, 1], settle_order = [1, 0]\<rparr>"

definition second_first :: timing where
  "second_first = \<lparr>run_order = [1, 0], settle_order = [1, 0]\<rparr>"

definition completed_event :: assistant_stream_event where
  "completed_event = \<lparr>event = ''thread.run.completed'', data = demo_run []\<rparr>"

definition failed_event :: assistant_stream_event where
  "failed_event =
     \<lparr>event = ''thread.run.failed'',
      data = \<lparr>run_id = ''run_1'', thread_id = ''thread_1'', required_action = None,
              last_error = Some ''Rate limit reached''\<rparr>\<rparr>"

definition cancelled_event :: assistant_stream_event where
  "cancelled_event = \<lparr>event = ''thread.run.cancelled'', data = demo_run []\<rparr>"

text \<open>
  A constructor that accepts a cron time when its minute and hour are in range, with any
  time zone or none.  A process with two tenants and one stored job each, before and after
  the start-up loop has registered the stored jobs; and four more jobs.
\<close>

definition in_range :: cron_check where
  "in_range t tz = (0 \<le> fst t \<and> fst t \<le> 59 \<and> 0 \<le> snd t \<and> snd t \<le> 23)"

definition boot :: state where
  "boot =
     \<lparr>tenants = [\<lparr>number = ''4711'', system = ''Be brief.'', timezone = ''Europe/Berlin''\<rparr>,
                \<lparr>number = ''4712'', system = ''Be kind.'', timezone = ''Asia/Tokyo''\<rparr>],
      jobs = [\<lparr>job_id = 1, tenant = ''4711'', hour = 8, minute = 30, prompt = ''Good morning''\<rparr>,
              \<lparr>job_id = 2, tenant = ''4712'', hour = 20, minute = 0, prompt = ''Good night''\<rparr>],
      cronJobs = Map.empty,
      timers = [],
      assistants = [''4711'' \<mapsto>
        \<lparr>assistant_id = ''asst_1'', instructions = ''Be brief.'',
         assistant_tools = [''edit_tenant'']\<rparr>],
      api_threads = [''thread_1'' \<mapsto> ''4711''],
      api_assistants = [''asst_1'' \<mapsto>
        \<lparr>assistant_id = ''asst_1'', instructions = ''Be brief.'',
         assistant_tools = [''edit_tenant'']\<rparr>]\<rparr>"

definition started :: state where
  "started = register_all in_range (map Some (jobs boot)) boot"

definition job_morning :: Job where
  "job_morning = \<lparr>job_id = 1, tenant = ''4711'', hour = 8, minute = 30, prompt = ''Good morning''\<rparr>"

definition job_noon :: Job where
  "job_noon = \<lparr>job_id = 1, tenant = ''4711'', hour = 12, minute = 0, prompt = ''Lunch''\<rparr>"

definition job_late :: Job where
  "job_late = \<lparr>job_id = 1, tenant = ''4711'', hour = 25, minute = 0, prompt = ''Too late''\<rparr>"

definition job_orphan :: Job where
  "job_orphan = \<lparr>job_id = 7, tenant = ''0000'', hour = 6, minute = 15, prompt = ''Wake up''\<rparr>"


section \<open>Lemmas on the fan-out of a batch\<close>

lemma schedule_distinct: "distinct (schedule n order)"
  by (simp add: schedule_def)

lemma schedule_set: "set (schedule n order) = {..<n}"
  by (auto simp: schedule_def)

lemma call_tool_id: "fst (call_tool reg t c w) = Inr out \<Longrightarrow> tool_call_id out = tc_id c"
  by (auto simp: call_tool_def split: option.splits sum.splits prod.splits)

lemma run_in_order_positions:
  "map fst (fst (run_in_order reg t calls sched w)) = filter (\<lambda>i. i < length calls) sched"
proof (induction sched arbitrary: w)
  case Nil
  then show ?case by simp
next
  case (Cons i rest)
  show ?case
  proof (cases "i < length calls")
    case False
    with Cons show ?thesis by simp
  next
    case True
    obtain r w' where c: "call_tool reg t (calls ! i) w = (r, w')"
      by (cases "call_tool reg t (calls ! i) w")
    obtain rs w'' where r: "run_in_order reg t calls rest w' = (rs, w'')"
      by (cases "run_in_order reg t calls rest w'")
    from Cons[of w'] r have "map fst rs = filter (\<lambda>i. i < length calls) rest" by simp
    with True c r show ?thesis by simp
  qed
qed

lemma run_in_order_outcomes:
  "(i, r) \<in> set (fst (run_in_order reg t calls sched w)) \<Longrightarrow>
     i < length calls \<and> (\<exists>w0. fst (call_tool reg t (calls ! i) w0) = r)"
proof (induction sched arbitrary: w)
  case Nil
  then show ?case by simp
next
  case (Cons j rest)
  show ?case
  proof (cases "j < length calls")
    case False
    with Cons show ?thesis by simp
  next
    case True
    obtain r' w' where c: "call_tool reg t (calls ! j) w = (r', w')"
      by (cases "call_tool reg t (calls ! j) w")
    obtain rs w'' where rr: "run_in_order reg t calls rest w' = (rs, w'')"
      by (cases "run_in_order reg t calls rest w'")
    from Cons.prems True c rr have "(i, r) = (j, r') \<or> (i, r) \<in> set rs" by simp
    then show ?thesis
    proof
      assume "(i, r) = (j, r')"
      with True c show ?thesis by (metis fst_conv prod.inject)
    next
      assume "(i, r) \<in> set rs"
      with Cons.IH[of w'] rr show ?thesis by simp
    qed
  qed
qed

lemma first_rejection_None: "first_rejection rs = None \<Longrightarrow> (i, r) \<in> set rs \<Longrightarrow> \<exists>x. r = Inr x"
  by (induction rs rule: first_rejection.induct) auto

lemma first_rejection_Some: "first_rejection rs = Some e \<Longrightarrow> \<exists>i. (i, Inl e) \<in> set rs"
  by (induction rs rule: first_rejection.induct) auto

lemma first_rejection_split:
  "first_rejection rs = Some e \<Longrightarrow>
     \<exists>pre i post. rs = pre @ (i, Inl e) # post \<and> (\<forall>p \<in> set pre. \<not> isl (snd p))"
proof (induction rs rule: first_rejection.induct)
  case 1
  then show ?case by simp
next
  case (2 i e' rs)
  then have "(i, Inl e') # rs = [] @ (i, Inl e) # rs" by simp
  then show ?case by (metis empty_iff list.set(1))
next
  case (3 i x rs)
  then obtain pre j post where "rs = pre @ (j, Inl e) # post" "\<forall>p \<in> set pre. \<not> isl (snd p)"
    by auto
  then have "(i, Inr x) # rs = ((i, Inr x) # pre) @ (j, Inl e) # post
              \<and> (\<forall>p \<in> set ((i, Inr x) # pre). \<not> isl (snd p))"
    by simp
  then show ?case by blast
qed

lemma those_all_Some: "(\<And>x. x \<in> set xs \<Longrightarrow> x \<noteq> None) \<Longrightarrow> those xs = Some (map the xs)"
proof (induction xs)
  case Nil
  then show ?case by simp
next
  case (Cons a xs)
  from Cons.prems[of a] obtain y where "a = Some y" by auto
  moreover from Cons have "those xs = Some (map the xs)" by simp
  ultimately show ?case by simp
qed

lemma in_time_order_member:
  "(i, r) \<in> set (in_time_order outcomes sched) \<Longrightarrow> map_of outcomes i = Some r \<and> i \<in> set sched"
  by (auto simp: in_time_order_def split: option.splits)

lemma in_time_order_positions:
  "(\<And>i. i \<in> set sched \<Longrightarrow> map_of outcomes i \<noteq> None) \<Longrightarrow>
     map fst (in_time_order outcomes sched) = sched"
proof (induction sched)
  case Nil
  then show ?case by (simp add: in_time_order_def)
next
  case (Cons i sched)
  from Cons.prems[of i] obtain r where "map_of outcomes i = Some r" by auto
  moreover from Cons have "map fst (in_time_order outcomes sched) = sched" by simp
  ultimately show ?case by (simp add: in_time_order_def)
qed

lemma run_in_order_covers:
  assumes "i < length calls"
  shows "map_of (fst (run_in_order reg t calls (schedule (length calls) order) w)) i \<noteq> None"
proof -
  have "map fst (fst (run_in_order reg t calls (schedule (length calls) order) w))
          = schedule (length calls) order"
    unfolding run_in_order_positions by (rule filter_True) (simp add: schedule_set)
  with assms have "i \<in> fst ` set (fst (run_in_order reg t calls
                          (schedule (length calls) order) w))"
    by (metis lessThan_iff list.set_map schedule_set)
  then show ?thesis by (simp add: map_of_eq_None_iff)
qed

lemma settlements_schedule:
  "map fst (settlements reg t calls tm w) = schedule (length calls) (settle_order tm)"
  unfolding settlements_def
  by (rule in_time_order_positions) (simp add: run_in_order_covers schedule_set)

lemma settlements_positions:
  "distinct (map fst (settlements reg t calls tm w))
   \<and> set (map fst (settlements reg t calls tm w)) = {..<length calls}"
  by (simp add: settlements_schedule schedule_distinct schedule_set)

lemma settlements_outcomes:
  assumes "(i, r) \<in> set (settlements reg t calls tm w)"
  shows "i < length calls \<and> (\<exists>w0. fst (call_tool reg t (calls ! i) w0) = r)"
proof -
  from assms
  have "map_of (fst (run_in_order reg t calls (schedule (length calls) (run_order tm)) w)) i
          = Some r"
    unfolding settlements_def by (blast dest: in_time_order_member)
  then have "(i, r) \<in> set (fst (run_in_order reg t calls
                (schedule (length calls) (run_order tm)) w))"
    by (rule map_of_SomeD)
  then show ?thesis by (rule run_in_order_outcomes)
qed

lemma settled_value:
  assumes none: "first_rejection (settlements reg t calls tm w) = None"
    and i: "i < length calls"
  shows "\<exists>x. value_of (settlements reg t calls tm w) i = Some x
           \<and> (i, Inr x) \<in> set (settlements reg t calls tm w)"
proof -
  let ?rs = "settlements reg t calls tm w"
  from i settlements_positions[of reg t calls tm w] have "i \<in> fst ` set ?rs" by simp
  then obtain r where r: "(i, r) \<in> set ?rs" by force
  with none obtain x where x: "r = Inr x" by (blast dest: first_rejection_None)
  from settlements_positions[of reg t calls tm w] r have "map_of ?rs i = Some r"
    by simp
  with x r show ?thesis by (simp add: value_of_def)
qed

lemma submitted_submitToolOutputs:
  "submitted (submitToolOutputs cl outs runId threadId) = [outs]"
proof -
  have a: "\<And>evs. submitted (map Emit evs @ es) = submitted es" for es
    subgoal for evs by (induction evs) auto
    done
  show ?thesis
    by (auto simp: submitToolOutputs_def a split: prod.splits option.splits)
qed


lemma schedule_two:
  "schedule (Suc (Suc 0)) [0, Suc 0] = [0, Suc 0]"
  "schedule (Suc (Suc 0)) [Suc 0, 0] = [Suc 0, 0]"
  by (simp_all add: schedule_def upt_rec)

lemma handleRequiresAction_settlements:
  "fst (handleRequiresAction cl reg dat runId threadId tm w) =
     (case promise_all (length (tool_calls dat))
             (settlements reg threadId (tool_calls dat) tm w) of
        None \<Rightarrow> []
      | Some (Inl e) \<Rightarrow> [LogError ''Error processing required action:'' e]
      | Some (Inr toolOutputs) \<Rightarrow> submitToolOutputs cl toolOutputs runId threadId)"
  by (simp add: handleRequiresAction_def settlements_def
      split: prod.splits option.splits sum.splits)

section \<open>Lemmas on the timer table\<close>

lemma cronJobs_stop: "cronJobs (stop r st) = cronJobs st"
  by (simp add: stop_def)

lemma timers_stop: "timers (stop r st) = (timers st)[r := (timers st ! r)\<lparr>running := False\<rparr>]"
  by (simp add: stop_def)



lemma filter_upt_eq: "r < n \<Longrightarrow> filter (\<lambda>x. x = r) [0..<n] = [r]"
proof (induction n)
  case 0
  then show ?case by simp
next
  case (Suc n)
  show ?case
  proof (cases "r = n")
    case True
    have "filter (\<lambda>x. x = n) [0..<n] = []" by (simp add: filter_empty_conv)
    with True show ?thesis by simp
  next
    case False
    with Suc have "filter (\<lambda>x. x = r) [0..<n] = [r]" by simp
    with False show ?thesis by simp
  qed
qed

lemma filter_upt_one:
  assumes "r < n"
  shows "filter (\<lambda>x. x = r \<and> p x) [0..<n] = (if p r then [r] else [])"
proof -
  have "filter (\<lambda>x. x = r \<and> p x) [0..<n] = filter p (filter (\<lambda>x. x = r) [0..<n])"
    by simp
  also have "\<dots> = filter p [r]" using assms by (simp only: filter_upt_eq)
  finally show ?thesis by simp
qed

lemma live_timers_ok:
  assumes "timers_ok st"
  shows "live_timers st j =
     (case cronJobs st j of
        None \<Rightarrow> []
      | Some r \<Rightarrow> if running (timers st ! r) then [r] else [])"
proof -
  have eq: "filter (\<lambda>r. running (timers st ! r) \<and> job_id (onTick (timers st ! r)) = j)
              [0..<length (timers st)]
          = filter (\<lambda>r. cronJobs st j = Some r \<and> running (timers st ! r))
              [0..<length (timers st)]"
    by (rule filter_cong) (use assms in \<open>auto simp: timers_ok_def\<close>)
  show ?thesis
  proof (cases "cronJobs st j")
    case None
    then show ?thesis by (simp add: live_timers_def eq)
  next
    case (Some r)
    with assms have "r < length (timers st)" by (simp add: timers_ok_def)
    then have "filter (\<lambda>x. x = r \<and> running (timers st ! x)) [0..<length (timers st)]
                 = (if running (timers st ! r) then [r] else [])"
      by (rule filter_upt_one)
    moreover have "(\<lambda>x. Some r = Some x \<and> running (timers st ! x))
                 = (\<lambda>x. x = r \<and> running (timers st ! x))"
      by auto
    ultimately show ?thesis using Some by (simp add: live_timers_def eq)
  qed
qed

lemma onTick_stopped:
  "onTick (xs[r := (xs ! r)\<lparr>running := False\<rparr>] ! i) = onTick (xs ! i)"
  by (cases "r < length xs") (simp_all add: nth_list_update list_update_beyond)

lemma running_stopped:
  "running (xs[r := (xs ! r)\<lparr>running := False\<rparr>] ! i) \<Longrightarrow> running (xs ! i)"
  by (cases "r < length xs") (simp_all add: nth_list_update list_update_beyond split: if_splits)

lemma timers_ok_stop:
  assumes "timers_ok st"
  shows "timers_ok (stop r st)"
  using assms unfolding timers_ok_def stop_def
  by (auto simp: onTick_stopped dest: running_stopped)

lemma timers_ok_install:
  assumes ok: "timers_ok st"
    and old: "\<And>r. cronJobs st k = Some r \<Longrightarrow> \<not> running (timers st ! r)"
    and c: "job_id (onTick c) = k"
  shows "timers_ok (st\<lparr>timers := timers st @ [c],
                        cronJobs := (cronJobs st)(k \<mapsto> length (timers st))\<rparr>)"
proof -
  let ?st = "st\<lparr>timers := timers st @ [c],
                 cronJobs := (cronJobs st)(k \<mapsto> length (timers st))\<rparr>"
  have entries: "r < length (timers ?st) \<and> job_id (onTick (timers ?st ! r)) = j"
    if "cronJobs ?st j = Some r" for j r
  proof -
    from that have "(j = k \<and> r = length (timers st)) \<or> (j \<noteq> k \<and> cronJobs st j = Some r)"
      by (auto split: if_splits)
    then show ?thesis using ok c by (auto simp: timers_ok_def nth_append)
  qed
  have live: "cronJobs ?st (job_id (onTick (timers ?st ! r))) = Some r"
    if r: "r < length (timers ?st)" and run: "running (timers ?st ! r)" for r
  proof (cases "r < length (timers st)")
    case False
    with r have "r = length (timers st)" by simp
    with c show ?thesis by simp
  next
    case True
    with run have run': "running (timers st ! r)" by (simp add: nth_append)
    with ok True have m: "cronJobs st (job_id (onTick (timers st ! r))) = Some r"
      by (simp add: timers_ok_def)
    with old run' have "job_id (onTick (timers st ! r)) \<noteq> k" by auto
    with m True show ?thesis by (simp add: nth_append)
  qed
  show ?thesis unfolding timers_ok_def using entries live by blast
qed

lemma timers_ok_createPrompt:
  assumes "timers_ok st"
  shows "timers_ok (snd (createPrompt accepts job st))"
proof (cases job)
  case None
  with assms show ?thesis by (simp add: createPrompt_def)
next
  case new: (Some j)
  define st1 where "st1 = (case cronJobs st (job_id j) of None \<Rightarrow> st | Some r \<Rightarrow> stop r st)"
  have ok1: "timers_ok st1"
    using assms by (simp add: st1_def timers_ok_stop split: option.splits)
  have old: "\<not> running (timers st1 ! r)" if "cronJobs st1 (job_id j) = Some r" for r
  proof (cases "cronJobs st (job_id j)")
    case None
    with that show ?thesis by (simp add: st1_def)
  next
    case (Some r0)
    with that have "r = r0" by (simp add: st1_def cronJobs_stop)
    moreover from assms Some have "r0 < length (timers st)" by (simp add: timers_ok_def)
    ultimately show ?thesis using Some by (simp add: st1_def timers_stop)
  qed
  show ?thesis
  proof (cases "accepts (minute j, hour j) (select_timezone st1 (tenant j))")
    case False
    with ok1 show ?thesis unfolding new by (simp add: createPrompt_def Let_def st1_def)
  next
    case True
    have "timers_ok (st1\<lparr>timers := timers st1 @
             [\<lparr>cronTime = (minute j, hour j), onTick = j,
               timeZone = select_timezone st1 (tenant j), running = True\<rparr>],
            cronJobs := (cronJobs st1)(job_id j \<mapsto> length (timers st1))\<rparr>)"
      by (rule timers_ok_install[OF ok1 old]) simp_all
    with True show ?thesis unfolding new by (simp add: createPrompt_def Let_def st1_def)
  qed
qed

lemma timers_ok_register_all: "timers_ok st \<Longrightarrow> timers_ok (register_all accepts js st)"
  unfolding register_all_def
  by (induction js arbitrary: st) (simp_all add: timers_ok_createPrompt)

lemma select_timezone_stop: "select_timezone (stop r st) n = select_timezone st n"
  by (simp add: select_timezone_def select_tenant_def stop_def)

lemma tenants_stop: "tenants (stop r st) = tenants st"
  by (simp add: stop_def)

lemma tenants_createPrompt: "tenants (snd (createPrompt accepts job st)) = tenants st"
proof (cases job)
  case None
  then show ?thesis by (simp add: createPrompt_def)
next
  case new: (Some j)
  show ?thesis
  proof (cases "cronJobs st (job_id j)")
    case None
    then show ?thesis unfolding new by (simp add: createPrompt_def Let_def)
  next
    case (Some r)
    then show ?thesis unfolding new by (simp add: createPrompt_def Let_def tenants_stop)
  qed
qed

lemma select_timezone_createPrompt:
  "select_timezone (snd (createPrompt accepts job st)) n = select_timezone st n"
  by (simp add: select_timezone_def select_tenant_def tenants_createPrompt)

lemma select_timezone_register_all:
  "select_timezone (register_all accepts js st) n = select_timezone st n"
  unfolding register_all_def
  by (induction js arbitrary: st) (simp_all add: select_timezone_createPrompt)

lemma register_all_snoc:
  "register_all accepts (js @ [x]) st
     = snd (createPrompt accepts x (register_all accepts js st))"
  by (simp add: register_all_def)

lemma registrations_for_snoc:
  "registrations_for j (js @ [x]) =
     registrations_for j js @
       (case x of None \<Rightarrow> [] | Some y \<Rightarrow> if job_id y = j then [y] else [])"
  by (simp add: registrations_for_def List.map_filter_def split: option.splits)

lemma createPrompt_same:
  assumes "accepts (minute j, hour j) (select_timezone st (tenant j))"
  shows "\<exists>r. cronJobs (snd (createPrompt accepts (Some j) st)) (job_id j) = Some r
     \<and> r < length (timers (snd (createPrompt accepts (Some j) st)))
     \<and> running (timers (snd (createPrompt accepts (Some j) st)) ! r)
     \<and> timers (snd (createPrompt accepts (Some j) st)) ! r = timer_for st j"
  using assms
  by (auto simp: createPrompt_def Let_def timer_for_def select_timezone_stop timers_stop
      split: option.splits)

lemma createPrompt_other:
  assumes ok: "timers_ok st" and ne: "job_id j \<noteq> k" and k: "cronJobs st k = Some r"
  shows "cronJobs (snd (createPrompt accepts (Some j) st)) k = Some r
     \<and> r < length (timers (snd (createPrompt accepts (Some j) st)))
     \<and> timers (snd (createPrompt accepts (Some j) st)) ! r = timers st ! r"
proof -
  from ok k have r: "r < length (timers st)" "job_id (onTick (timers st ! r)) = k"
    by (auto simp: timers_ok_def)
  show ?thesis
  proof (cases "cronJobs st (job_id j)")
    case None
    with ne k r show ?thesis by (simp add: createPrompt_def Let_def nth_append)
  next
    case (Some r0)
    with ok have "job_id (onTick (timers st ! r0)) = job_id j" by (auto simp: timers_ok_def)
    with r ne have "r0 \<noteq> r" by auto
    with Some ne k r show ?thesis
      by (simp add: createPrompt_def stop_def Let_def nth_append)
  qed
qed

lemma register_all_last:
  assumes ok: "timers_ok st"
    and reg: "registrations_for k js \<noteq> []"
    and acc: "accepts (minute (last (registrations_for k js)),
                       hour (last (registrations_for k js)))
                (select_timezone st (tenant (last (registrations_for k js))))"
  shows "\<exists>r. cronJobs (register_all accepts js st) k = Some r
     \<and> r < length (timers (register_all accepts js st))
     \<and> timers (register_all accepts js st) ! r = timer_for st (last (registrations_for k js))"
  using reg acc
proof (induction js rule: rev_induct)
  case Nil
  then show ?case by (simp add: registrations_for_def List.map_filter_def)
next
  case (snoc x js)
  let ?st = "register_all accepts js st"
  have ok': "timers_ok ?st" using ok by (rule timers_ok_register_all)
  show ?case
  proof (cases x)
    case None
    with snoc show ?thesis
      by (simp add: register_all_snoc registrations_for_snoc createPrompt_def)
  next
    case (Some j)
    show ?thesis
    proof (cases "job_id j = k")
      case True
      have tf: "timer_for ?st j = timer_for st j"
        by (simp add: timer_for_def select_timezone_register_all)
      from True Some snoc.prems(2)
      have "accepts (minute j, hour j) (select_timezone ?st (tenant j))"
        by (simp add: registrations_for_snoc select_timezone_register_all)
      from createPrompt_same[where accepts = accepts and j = j and st = ?st, OF this]
        tf True Some show ?thesis
        by (auto simp: register_all_snoc registrations_for_snoc)
    next
      case False
      with Some snoc.prems have ne: "registrations_for k js \<noteq> []"
        and acc': "accepts (minute (last (registrations_for k js)),
                            hour (last (registrations_for k js)))
                     (select_timezone st (tenant (last (registrations_for k js))))"
        by (simp_all add: registrations_for_snoc)
      from snoc.IH[OF ne acc'] obtain r where r: "cronJobs ?st k = Some r"
        "timers ?st ! r = timer_for st (last (registrations_for k js))" by blast
      from createPrompt_other[OF ok' False r(1)] r(2) False Some show ?thesis
        by (simp add: register_all_snoc registrations_for_snoc)
    qed
  qed
qed

lemma started_eq:
  "started = boot\<lparr>cronJobs := [1 \<mapsto> 0, 2 \<mapsto> 1],
     timers := [\<lparr>cronTime = (30, 8), onTick = jobs boot ! 0, timeZone = Some ''Europe/Berlin'',
                  running = True\<rparr>,
                \<lparr>cronTime = (0, 20), onTick = jobs boot ! 1, timeZone = Some ''Asia/Tokyo'',
                  running = True\<rparr>]\<rparr>"
  by (simp add: started_def register_all_def createPrompt_def Let_def boot_def
      select_timezone_def select_tenant_def in_range_def)

section \<open>Lemmas on the tables of the store\<close>




lemma filter_some_hit:
  assumes "\<exists>j \<in> set js. p j"
  shows "0 < length (filter p js)"
  using assms by (induction js) auto

lemma find_map_same:
  assumes "\<And>x. p (f x) = p x"
  shows "find p (map f xs) = map_option f (find p xs)"
  by (induction xs) (simp_all add: assms)

lemma find_Some_filter: "find p xs = Some x \<Longrightarrow> 0 < length (filter p xs)"
  by (induction xs) (auto split: if_splits)


section \<open>The tool-call batch\<close>

text \<open>
  C1 (as the specification states it, refuted).  A batch of two tool calls of which exactly
  one handler throws, in either order in time: no batch is submitted at all.  The rejection
  of the one call rejects Promise.all, the error is written to console.error, and the
  output of the sibling call is dropped with it.
\<close>

theorem one_throwing_handler_drops_the_batch:
  "fst (handleRequiresAction demo_client demo_registry (demo_run [call_works, call_fails])
          ''run_1'' ''thread_1'' batch_order ())
     = [LogError ''Error processing required action:'' (Error ''boom'')]
   \<and> fst (handleRequiresAction demo_client demo_registry (demo_run [call_works, call_fails])
          ''run_1'' ''thread_1'' second_settles_first ())
     = [LogError ''Error processing required action:'' (Error ''boom'')]
   \<and> submitted (fst (handleRequiresAction demo_client demo_registry
          (demo_run [call_works, call_fails]) ''run_1'' ''thread_1'' batch_order ())) = []
   \<and> submitted (fst (handleRequiresAction demo_client demo_registry
          (demo_run [call_works, call_fails]) ''run_1'' ''thread_1'' second_settles_first ()))
       = []"
  by (simp add: handleRequiresAction_def in_time_order_def batch_order_def
      second_settles_first_def tool_calls_def call_tool_def demo_run_def call_works_def
      call_fails_def demo_registry_def registerFunction_def ok_handler_def
      failing_handler_def schedule_two promise_all_def)

text \<open>
  C1 (amended).  For a batch of N tool calls, in whatever orders its calls run and settle:
  when no call of the batch throws, exactly one batch is submitted and it holds N outputs,
  one per call id in the order of the calls, each the outcome that its call settled with
  and that the dispatch of the call gave; when some call throws, handling the batch does
  nothing but log one error, the one of the call that rejected first in time (no call that
  settled before it rejected), so nothing is submitted.  The calls settle once each, in the
  order of the schedule.
\<close>

theorem batch_submitted_whole_or_not_at_all:
  "map fst (settlements reg threadId (tool_calls dat) tm w)
     = schedule (length (tool_calls dat)) (settle_order tm)
   \<and> (first_rejection (settlements reg threadId (tool_calls dat) tm w) = None \<longrightarrow>
      (\<exists>outs. submitted (fst (handleRequiresAction cl reg dat runId threadId tm w)) = [outs]
         \<and> length outs = length (tool_calls dat)
         \<and> map tool_call_id outs = map tc_id (tool_calls dat)
         \<and> (\<forall>i < length (tool_calls dat).
              (i, Inr (outs ! i)) \<in> set (settlements reg threadId (tool_calls dat) tm w)
              \<and> (\<exists>w0. fst (call_tool reg threadId (tool_calls dat ! i) w0) = Inr (outs ! i)))))
   \<and> (\<forall>e. first_rejection (settlements reg threadId (tool_calls dat) tm w) = Some e \<longrightarrow>
        fst (handleRequiresAction cl reg dat runId threadId tm w)
          = [LogError ''Error processing required action:'' e]
        \<and> (\<exists>pre i post.
              settlements reg threadId (tool_calls dat) tm w = pre @ (i, Inl e) # post
              \<and> (\<forall>p \<in> set pre. \<not> isl (snd p)))
        \<and> (\<exists>i < length (tool_calls dat). \<exists>w0.
              fst (call_tool reg threadId (tool_calls dat ! i) w0) = Inl e))"
proof (intro conjI impI allI)
  show "map fst (settlements reg threadId (tool_calls dat) tm w)
     = schedule (length (tool_calls dat)) (settle_order tm)"
    by (rule settlements_schedule)
next
  let ?calls = "tool_calls dat"
  let ?rs = "settlements reg threadId ?calls tm w"
  let ?n = "length ?calls"
  assume none: "first_rejection ?rs = None"
  define outs where "outs = map (\<lambda>i. the (value_of ?rs i)) [0..<?n]"
  have val: "value_of ?rs i = Some (outs ! i) \<and> (i, Inr (outs ! i)) \<in> set ?rs" if "i < ?n" for i
    using settled_value[OF none that] that by (auto simp: outs_def)
  have "those (map (value_of ?rs) [0..<?n]) = Some (map the (map (value_of ?rs) [0..<?n]))"
    by (rule those_all_Some) (use val in auto)
  then have th: "those (map (value_of ?rs) [0..<?n]) = Some outs"
    by (simp add: outs_def comp_def)
  have len: "length outs = ?n" by (simp add: outs_def)
  have from_call: "\<exists>w0. fst (call_tool reg threadId (?calls ! i) w0) = Inr (outs ! i)"
    if "i < ?n" for i
    using val[OF that] settlements_outcomes[of i "Inr (outs ! i)" reg threadId ?calls tm w]
    by simp
  have ids: "map tool_call_id outs = map tc_id ?calls"
  proof (rule nth_equalityI)
    show "length (map tool_call_id outs) = length (map tc_id ?calls)" using len by simp
  next
    fix i
    assume "i < length (map tool_call_id outs)"
    then have i: "i < ?n" using len by simp
    from from_call[OF i] obtain w0
      where "fst (call_tool reg threadId (?calls ! i) w0) = Inr (outs ! i)" by blast
    then have "tool_call_id (outs ! i) = tc_id (?calls ! i)" by (rule call_tool_id)
    with i len show "map tool_call_id outs ! i = map tc_id ?calls ! i" by simp
  qed
  from none th have "promise_all ?n ?rs = Some (Inr outs)"
    by (simp add: promise_all_def)
  then have sub:
    "submitted (fst (handleRequiresAction cl reg dat runId threadId tm w)) = [outs]"
    by (simp add: handleRequiresAction_settlements submitted_submitToolOutputs)
  show "\<exists>outs. submitted (fst (handleRequiresAction cl reg dat runId threadId tm w)) = [outs]
         \<and> length outs = ?n
         \<and> map tool_call_id outs = map tc_id ?calls
         \<and> (\<forall>i < ?n. (i, Inr (outs ! i)) \<in> set ?rs
              \<and> (\<exists>w0. fst (call_tool reg threadId (?calls ! i) w0) = Inr (outs ! i)))"
    using sub len ids val from_call by blast
next
  fix e
  let ?calls = "tool_calls dat"
  let ?rs = "settlements reg threadId ?calls tm w"
  assume some: "first_rejection ?rs = Some e"
  then have "promise_all (length ?calls) ?rs = Some (Inl e)"
    by (simp add: promise_all_def)
  then show "fst (handleRequiresAction cl reg dat runId threadId tm w)
          = [LogError ''Error processing required action:'' e]"
    by (simp add: handleRequiresAction_settlements)
  from some show "\<exists>pre i post. ?rs = pre @ (i, Inl e) # post \<and> (\<forall>p \<in> set pre. \<not> isl (snd p))"
    by (rule first_rejection_split)
  from some obtain i where "(i, Inl e) \<in> set ?rs" by (blast dest: first_rejection_Some)
  then show "\<exists>i < length ?calls. \<exists>w0. fst (call_tool reg threadId (?calls ! i) w0) = Inl e"
    using settlements_outcomes[of i "Inl e" reg threadId ?calls tm w] by auto
qed

theorem batch_submitted_whole_or_not_at_all_witness:
  "first_rejection (settlements demo_registry ''thread_1''
      (tool_calls (demo_run [call_works, call_works])) second_first ()) = None
   \<and> (\<exists>outs. submitted (fst (handleRequiresAction demo_client demo_registry
                 (demo_run [call_works, call_works]) ''run_1'' ''thread_1'' second_first ()))
               = [outs]
         \<and> length outs = 2
         \<and> map tool_call_id outs = [''call_1'', ''call_1''])
   \<and> first_rejection (settlements demo_registry ''thread_1''
        (tool_calls (demo_run [call_fails, call_unknown])) batch_order ())
       = Some (Error ''boom'')
   \<and> fst (handleRequiresAction demo_client demo_registry (demo_run [call_fails, call_unknown])
            ''run_1'' ''thread_1'' batch_order ())
       = [LogError ''Error processing required action:'' (Error ''boom'')]
   \<and> first_rejection (settlements demo_registry ''thread_1''
        (tool_calls (demo_run [call_fails, call_unknown])) second_settles_first ())
       = Some TypeError
   \<and> fst (handleRequiresAction demo_client demo_registry (demo_run [call_fails, call_unknown])
            ''run_1'' ''thread_1'' second_settles_first ())
       = [LogError ''Error processing required action:'' TypeError]"
proof -
  have a: "first_rejection (settlements demo_registry ''thread_1''
      (tool_calls (demo_run [call_works, call_works])) second_first ()) = None"
    by (simp add: settlements_def in_time_order_def second_first_def tool_calls_def
        demo_run_def schedule_two call_tool_def call_works_def demo_registry_def
        registerFunction_def ok_handler_def)
  have b: "first_rejection (settlements demo_registry ''thread_1''
        (tool_calls (demo_run [call_fails, call_unknown])) batch_order ())
       = Some (Error ''boom'')"
    by (simp add: settlements_def in_time_order_def batch_order_def tool_calls_def
        demo_run_def schedule_two call_tool_def call_fails_def call_unknown_def
        demo_registry_def registerFunction_def failing_handler_def)
  have c: "first_rejection (settlements demo_registry ''thread_1''
        (tool_calls (demo_run [call_fails, call_unknown])) second_settles_first ())
       = Some TypeError"
    by (simp add: settlements_def in_time_order_def second_settles_first_def tool_calls_def
        demo_run_def schedule_two call_tool_def call_fails_def call_unknown_def
        demo_registry_def registerFunction_def failing_handler_def)
  have d: "tool_calls (demo_run [call_works, call_works]) = [call_works, call_works]"
    by (simp add: tool_calls_def demo_run_def)
  from a batch_submitted_whole_or_not_at_all
          [where reg = demo_registry and threadId = "''thread_1''"
             and dat = "demo_run [call_works, call_works]" and tm = second_first and w = "()"
             and cl = demo_client and runId = "''run_1''"]
  obtain outs where o:
    "submitted (fst (handleRequiresAction demo_client demo_registry
        (demo_run [call_works, call_works]) ''run_1'' ''thread_1'' second_first ())) = [outs]"
    "length outs = length (tool_calls (demo_run [call_works, call_works]))"
    "map tool_call_id outs = map tc_id (tool_calls (demo_run [call_works, call_works]))"
    by blast
  from o(2,3)[unfolded d]
  have "length outs = 2" "map tool_call_id outs = [''call_1'', ''call_1'']"
    by (simp_all add: call_works_def)
  with o(1) have e: "\<exists>outs. submitted (fst (handleRequiresAction demo_client demo_registry
                 (demo_run [call_works, call_works]) ''run_1'' ''thread_1'' second_first ()))
               = [outs]
         \<and> length outs = 2
         \<and> map tool_call_id outs = [''call_1'', ''call_1'']"
    by (intro exI[of _ outs]) simp
  from b batch_submitted_whole_or_not_at_all
          [where reg = demo_registry and threadId = "''thread_1''"
             and dat = "demo_run [call_fails, call_unknown]" and tm = batch_order and w = "()"
             and cl = demo_client and runId = "''run_1''"]
  have f: "fst (handleRequiresAction demo_client demo_registry
             (demo_run [call_fails, call_unknown]) ''run_1'' ''thread_1'' batch_order ())
       = [LogError ''Error processing required action:'' (Error ''boom'')]"
    by blast
  from c batch_submitted_whole_or_not_at_all
          [where reg = demo_registry and threadId = "''thread_1''"
             and dat = "demo_run [call_fails, call_unknown]" and tm = second_settles_first
             and w = "()" and cl = demo_client and runId = "''run_1''"]
  have g: "fst (handleRequiresAction demo_client demo_registry
             (demo_run [call_fails, call_unknown]) ''run_1'' ''thread_1''
             second_settles_first ())
       = [LogError ''Error processing required action:'' TypeError]"
    by blast
  from a b c e f g show ?thesis by (intro conjI)
qed




text \<open>
  C6.  When a name is registered twice, the table holds the handler registered last (and
  the tool description registered last), and a dispatch of a call of that name runs that
  handler and returns its result under the id of the call.
\<close>

theorem last_registration_wins:
  "functions_table (registerFunction n d2 p2 f2 (registerFunction n d1 p1 f1 reg)) n = Some f2
   \<and> tools_table (registerFunction n d2 p2 f2 (registerFunction n d1 p1 f1 reg)) n
       = Some \<lparr>tool_name = n, description = d2, parameters = p2\<rparr>
   \<and> call_tool (registerFunction n d2 p2 f2 (registerFunction n d1 p1 f1 reg)) threadId
        \<lparr>tc_id = i, tc_name = n, tc_arguments = Some args\<rparr> w
       = (case f2 args threadId w of
            (Inl e, w') \<Rightarrow> (Inl e, w')
          | (Inr result, w') \<Rightarrow> (Inr \<lparr>tool_call_id = i, output_value = result\<rparr>, w'))"
  by (simp add: call_tool_def registerFunction_def split: prod.splits sum.splits)

theorem last_registration_wins_witness:
  "call_tool (registerFunction ''tool'' ''second'' [] ok_handler
        (registerFunction ''tool'' ''first'' [] failing_handler
           \<lparr>functions_table = Map.empty, tools_table = Map.empty\<rparr>)) ''thread_1''
        \<lparr>tc_id = ''call_1'', tc_name = ''tool'', tc_arguments = Some (JObj [])\<rparr> ()
     = (Inr \<lparr>tool_call_id = ''call_1'', output_value = JStr ''ok''\<rparr>, ())"
  using last_registration_wins
          [of "''tool''" "''second''" "[]" ok_handler "''first''" "[]" failing_handler
              "\<lparr>functions_table = Map.empty, tools_table = Map.empty\<rparr>" "''thread_1''"
              "''call_1''" "JObj []" "()"]
  by (simp add: ok_handler_def)


section \<open>The end of a run\<close>

text \<open>
  C2 (as the specification states it, refuted).  A run completes on a thread that holds no
  message of the assistant: handling the event resolves nothing and logs nothing, so the
  caller's promise stays pending.
\<close>

theorem completed_without_assistant_message_unresolved:
  "event completed_event = ''thread.run.completed''
   \<and> messages_list demo_client (thread_id (data completed_event))
       = Inr [\<lparr>role = ''user'', content = [Text ''hello'']\<rparr>]
   \<and> onEvent demo_client demo_registry batch_order completed_event () = ([], ())
   \<and> resolved (fst (onEvent demo_client demo_registry batch_order completed_event ())) = []"
  by (simp add: completed_event_def demo_client_def demo_run_def onEvent_def)

text \<open>
  C2 (amended).  On a completed run whose messages can be listed, the caller is resolved
  exactly when the first message of the assistant starts with a text part, and then with
  that text; in every other case (no message of the assistant, no content, another kind of
  content) handling the event does nothing, and it throws in no case.
\<close>

theorem completed_resolves_only_with_text:
  assumes "event ev = ''thread.run.completed''"
    and "messages_list cl (thread_id (data ev)) = Inr ms"
  shows "onEvent cl reg tm ev w =
     (case find (\<lambda>m. role m = ''assistant'') ms of
        None \<Rightarrow> ([], w)
      | Some m \<Rightarrow> (case content m of Text v # rest \<Rightarrow> ([Resolve v], w) | _ \<Rightarrow> ([], w)))"
  using assms
  by (auto simp: onEvent_def split: option.splits list.splits message_content.splits)

theorem completed_resolves_only_with_text_witness:
  "event completed_event = ''thread.run.completed''
   \<and> messages_list answering_client (thread_id (data completed_event))
       = Inr [\<lparr>role = ''assistant'', content = [Text ''Guten Morgen'']\<rparr>,
              \<lparr>role = ''user'', content = [Text ''hello'']\<rparr>]
   \<and> onEvent answering_client demo_registry batch_order completed_event ()
       = ([Resolve ''Guten Morgen''], ())"
  using completed_resolves_only_with_text
          [where ev = completed_event and cl = answering_client and reg = demo_registry
             and tm = batch_order and w = "()"
             and ms = "[\<lparr>role = ''assistant'', content = [Text ''Guten Morgen'']\<rparr>,
                        \<lparr>role = ''user'', content = [Text ''hello'']\<rparr>]"]
  by (simp add: completed_event_def answering_client_def demo_run_def)

text \<open>
  C3 (as the specification states it, refuted).  On a cancelled run the handler has no
  branch: nothing is resolved.
\<close>

theorem cancelled_run_unresolved:
  "event cancelled_event = ''thread.run.cancelled''
   \<and> onEvent demo_client demo_registry batch_order cancelled_event () = ([], ())
   \<and> resolved (fst (onEvent demo_client demo_registry batch_order cancelled_event ())) = []"
  by (simp add: cancelled_event_def onEvent_def)

text \<open>
  C3 (amended).  On a failed run the caller is resolved with the text
  \<open>Der Run ist fehlgeschlagen: \<close> followed by the message of the last error of the run (or by
  \<open>undefined\<close> when the run has none); nothing else happens and nothing is thrown.
\<close>

theorem failed_resolves_with_message:
  assumes "event ev = ''thread.run.failed''"
  shows "onEvent cl reg tm ev w =
     ([Resolve (''Der Run ist fehlgeschlagen: ''
          @ (case last_error (data ev) of None \<Rightarrow> ''undefined'' | Some m \<Rightarrow> m))], w)"
  using assms by (simp add: onEvent_def)

theorem failed_resolves_with_message_witness:
  "event failed_event = ''thread.run.failed''
   \<and> onEvent demo_client demo_registry batch_order failed_event ()
       = ([Resolve ''Der Run ist fehlgeschlagen: Rate limit reached''], ())"
  using failed_resolves_with_message
          [where ev = failed_event and cl = demo_client and reg = demo_registry
             and tm = batch_order and w = "()"]
  by (simp add: failed_event_def)


section \<open>The timers of the scheduled jobs\<close>

text \<open>
  C4 (as the specification states it, refuted).  A job is registered, and registered again
  with an hour that the CronJob constructor does not accept: the second registration has
  stopped the object of the first before the constructor throws, so no running object is
  left for the job id, and the table \<open>cronJobs\<close> still holds the stopped one.
\<close>

theorem rejected_registration_leaves_no_timer:
  "registrations_for 1 [Some job_morning, Some job_late] = [job_morning, job_late]
   \<and> fst (createPrompt in_range (Some job_late)
           (register_all in_range [Some job_morning] boot)) = Inl CronError
   \<and> live_timers (register_all in_range [Some job_morning] boot) 1 = [0]
   \<and> live_timers (register_all in_range [Some job_morning, Some job_late] boot) 1 = []
   \<and> cronJobs (register_all in_range [Some job_morning, Some job_late] boot) 1 = Some 0
   \<and> \<not> running (timers (register_all in_range [Some job_morning, Some job_late] boot) ! 0)"
  by (simp add: registrations_for_def List.map_filter_def live_timers_def register_all_def
      createPrompt_def stop_def Let_def boot_def job_morning_def job_late_def upt_rec
      select_timezone_def select_tenant_def in_range_def)

text \<open>
  C4 (amended).  Start from a process without timers and run any sequence of registrations
  in which job id \<open>k\<close> occurs and whose last registration of \<open>k\<close> the CronJob constructor
  accepts.  Then exactly one running CronJob object belongs to \<open>k\<close>, it is the one the table
  \<open>cronJobs\<close> holds for \<open>k\<close>, and it is the object built by the last registration of \<open>k\<close>: its
  minute, hour, job and time zone are those of that registration.  For every job id, after
  every sequence of registrations and whatever the constructor accepts, there is at most
  one running object.
\<close>

theorem one_live_timer_per_job:
  assumes "cronJobs st = Map.empty" and "timers st = []"
    and "registrations_for k js \<noteq> []"
    and "accepts (minute (last (registrations_for k js)), hour (last (registrations_for k js)))
           (select_timezone st (tenant (last (registrations_for k js))))"
  shows "map Some (live_timers (register_all accepts js st) k)
           = [cronJobs (register_all accepts js st) k]
     \<and> map (\<lambda>r. timers (register_all accepts js st) ! r)
           (live_timers (register_all accepts js st) k)
         = [\<lparr>cronTime = (minute (last (registrations_for k js)),
                          hour (last (registrations_for k js))),
              onTick = last (registrations_for k js),
              timeZone = select_timezone st (tenant (last (registrations_for k js))),
              running = True\<rparr>]
     \<and> length (live_timers (register_all accepts js' st) k') \<le> 1"
proof -
  have ok: "timers_ok st" using assms(1,2) by (simp add: timers_ok_def)
  have ok': "timers_ok (register_all accepts js st)" using ok by (rule timers_ok_register_all)
  have ok'': "timers_ok (register_all accepts js' st)" using ok by (rule timers_ok_register_all)
  from register_all_last[where accepts = accepts and st = st and k = k and js = js,
         OF ok assms(3,4)] obtain r where
    r: "cronJobs (register_all accepts js st) k = Some r"
       "timers (register_all accepts js st) ! r
          = timer_for st (last (registrations_for k js))"
    by blast
  from r(2) have "running (timers (register_all accepts js st) ! r)"
    by (simp add: timer_for_def)
  then have "live_timers (register_all accepts js st) k = [r]"
    using live_timers_ok[OF ok', of k] r(1) by simp
  moreover have "length (live_timers (register_all accepts js' st) k') \<le> 1"
    using live_timers_ok[OF ok'', of k'] by (simp split: option.splits)
  ultimately show ?thesis using r by (simp add: timer_for_def)
qed

theorem one_live_timer_per_job_witness:
  "cronJobs boot = Map.empty \<and> timers boot = []
   \<and> registrations_for 1 [Some job_morning, Some job_late, Some job_noon] \<noteq> []
   \<and> in_range (minute job_noon, hour job_noon) (select_timezone boot (tenant job_noon))
   \<and> live_timers (register_all in_range [Some job_morning, Some job_late, Some job_noon] boot) 1
       = [1]
   \<and> cronJobs (register_all in_range [Some job_morning, Some job_late, Some job_noon] boot) 1
       = Some 1
   \<and> map (\<lambda>r. timers (register_all in_range
                  [Some job_morning, Some job_late, Some job_noon] boot) ! r)
        (live_timers (register_all in_range
                  [Some job_morning, Some job_late, Some job_noon] boot) 1)
       = [\<lparr>cronTime = (0, 12), onTick = job_noon, timeZone = Some ''Europe/Berlin'',
           running = True\<rparr>]"
proof -
  have a: "cronJobs boot = Map.empty" "timers boot = []" by (simp_all add: boot_def)
  have b: "registrations_for 1 [Some job_morning, Some job_late, Some job_noon]
             = [job_morning, job_late, job_noon]"
    by (simp add: registrations_for_def List.map_filter_def job_morning_def job_late_def
        job_noon_def)
  then have c: "registrations_for 1 [Some job_morning, Some job_late, Some job_noon] \<noteq> []"
    by simp
  have d: "in_range (minute (last (registrations_for 1
                       [Some job_morning, Some job_late, Some job_noon])),
                     hour (last (registrations_for 1
                       [Some job_morning, Some job_late, Some job_noon])))
             (select_timezone boot (tenant (last (registrations_for 1
                       [Some job_morning, Some job_late, Some job_noon]))))"
    unfolding b by (simp add: in_range_def job_noon_def)
  have e: "live_timers (register_all in_range
             [Some job_morning, Some job_late, Some job_noon] boot) 1 = [1]"
    by (simp add: live_timers_def register_all_def createPrompt_def stop_def Let_def boot_def
        job_morning_def job_late_def job_noon_def upt_rec select_timezone_def
        select_tenant_def in_range_def)
  from one_live_timer_per_job[where accepts = in_range and st = boot and k = 1
         and js = "[Some job_morning, Some job_late, Some job_noon]" and k' = 1, OF a c d]
       a c d e b show ?thesis
    by (simp add: boot_def job_noon_def select_timezone_def select_tenant_def)
qed



text \<open>
  C8 (as the specification states it, refuted).  A job of a tenant that the store does not
  hold is registered: the registration does not fail, and a running timer without a time
  zone is installed for the job.
\<close>

theorem registration_without_tenant_succeeds:
  "select_timezone boot (tenant job_orphan) = None
   \<and> fst (createPrompt in_range (Some job_orphan) boot) = Inr ()
   \<and> cronJobs (snd (createPrompt in_range (Some job_orphan) boot)) 7 = Some 0
   \<and> timers (snd (createPrompt in_range (Some job_orphan) boot))
       = [\<lparr>cronTime = (15, 6), onTick = job_orphan, timeZone = None, running = True\<rparr>]
   \<and> live_timers (snd (createPrompt in_range (Some job_orphan) boot)) 7 = [0]"
  by (simp add: createPrompt_def Let_def boot_def job_orphan_def live_timers_def
      select_timezone_def select_tenant_def in_range_def)

text \<open>
  C8 (amended).  When the store gives no time zone for the tenant of a job, registering the
  job does not fail on that account: the CronJob constructor is called without a time
  zone, and if it accepts the cron time of the job, the registration returns, a running
  CronJob object without a time zone is constructed for the job and the table \<open>cronJobs\<close>
  holds it.
\<close>

theorem unresolved_timezone_still_installs_timer:
  assumes "select_timezone st (tenant j) = None"
    and "accepts (minute j, hour j) None"
  shows "fst (createPrompt accepts (Some j) st) = Inr ()
     \<and> cronJobs (snd (createPrompt accepts (Some j) st)) (job_id j) = Some (length (timers st))
     \<and> length (timers (snd (createPrompt accepts (Some j) st))) = Suc (length (timers st))
     \<and> timers (snd (createPrompt accepts (Some j) st)) ! length (timers st)
         = \<lparr>cronTime = (minute j, hour j), onTick = j, timeZone = None, running = True\<rparr>"
  using assms
  by (simp add: createPrompt_def Let_def nth_append select_timezone_stop timers_stop
      cronJobs_stop split: option.splits)

theorem unresolved_timezone_still_installs_timer_witness:
  "select_timezone started (tenant job_orphan) = None
   \<and> in_range (minute job_orphan, hour job_orphan) None
   \<and> fst (createPrompt in_range (Some job_orphan) started) = Inr ()
   \<and> cronJobs (snd (createPrompt in_range (Some job_orphan) started)) 7 = Some 2
   \<and> timers (snd (createPrompt in_range (Some job_orphan) started)) ! 2
       = \<lparr>cronTime = (15, 6), onTick = job_orphan, timeZone = None, running = True\<rparr>"
proof -
  have a: "select_timezone started (tenant job_orphan) = None"
    by (simp add: started_eq boot_def job_orphan_def select_timezone_def select_tenant_def)
  have b: "in_range (minute job_orphan, hour job_orphan) None"
    by (simp add: in_range_def job_orphan_def)
  have c: "length (timers started) = 2" by (simp add: started_eq)
  from unresolved_timezone_still_installs_timer
         [where accepts = in_range and st = started and j = job_orphan, OF a b] a b c
  show ?thesis
    by (simp add: job_orphan_def)
qed

section \<open>Tenants\<close>

text \<open>
  C9.  An edit from a thread of tenant \<open>t\<close>, whose row exists and whose assistant is cached
  and known to the API, returns the number of changed rows, leaves the cache \<open>assistants\<close>
  as it is, and updates the instructions of the assistant with the cached id to the system
  text now stored (the new one if one was given, else the old one); the id and the tools of
  that assistant stay.
\<close>

theorem edit_tenant_updates_agent_in_place:
  assumes "api_threads st threadId = Some t"
    and "select_tenant st t = Some row"
    and "assistants st t = Some a"
    and "api_assistants st (assistant_id a) = Some ra"
  shows "fst (edit_tenant args threadId st)
           = Inr (length (filter (\<lambda>x. number x = t) (tenants st)))
     \<and> assistants (snd (edit_tenant args threadId st)) = assistants st
     \<and> api_assistants (snd (edit_tenant args threadId st))
         = (api_assistants st)(assistant_id a \<mapsto>
              ra\<lparr>instructions := coalesce (et_system args) (system row)\<rparr>)"
proof -
  let ?f = "\<lambda>x. if number x = t
              then x\<lparr>system := coalesce (et_system args) (system x),
                     timezone := coalesce (et_timezone args) (timezone x)\<rparr>
              else x"
  have row: "find (\<lambda>x. number x = t) (tenants st) = Some row"
    using assms(2) by (simp add: select_tenant_def)
  have pos: "0 < length (filter (\<lambda>x. number x = t) (tenants st))"
    using row by (rule find_Some_filter)
  have "find (\<lambda>x. number x = t) (map ?f (tenants st))
          = map_option ?f (find (\<lambda>x. number x = t) (tenants st))"
    by (rule find_map_same) simp
  with row have f: "find (\<lambda>x. number x = t) (map ?f (tenants st)) = Some (?f row)"
    by simp
  from row have "number row = t" by (auto simp: find_Some_iff)
  then have sys: "system (?f row) = coalesce (et_system args) (system row)" by simp
  show ?thesis
    using assms(1,3,4) pos f sys
    by (simp add: edit_tenant_def Let_def assistants_update_def select_system_def
        select_tenant_def)
qed

theorem edit_tenant_updates_agent_in_place_witness:
  "api_threads started ''thread_1'' = Some ''4711''
   \<and> select_tenant started ''4711''
       = Some \<lparr>number = ''4711'', system = ''Be brief.'', timezone = ''Europe/Berlin''\<rparr>
   \<and> map_option assistant_id (assistants started ''4711'') = Some ''asst_1''
   \<and> fst (edit_tenant \<lparr>et_system = Some ''Be verbose.'', et_timezone = None\<rparr> ''thread_1''
            started) = Inr 1
   \<and> assistants (snd (edit_tenant \<lparr>et_system = Some ''Be verbose.'', et_timezone = None\<rparr>
            ''thread_1'' started)) = assistants started
   \<and> api_assistants (snd (edit_tenant \<lparr>et_system = Some ''Be verbose.'', et_timezone = None\<rparr>
            ''thread_1'' started)) ''asst_1''
       = Some \<lparr>assistant_id = ''asst_1'', instructions = ''Be verbose.'',
               assistant_tools = [''edit_tenant'']\<rparr>"
proof -
  have a: "api_threads started ''thread_1'' = Some ''4711''"
    by (simp add: started_eq boot_def)
  have b: "select_tenant started ''4711''
       = Some \<lparr>number = ''4711'', system = ''Be brief.'', timezone = ''Europe/Berlin''\<rparr>"
    by (simp add: started_eq boot_def select_tenant_def)
  have c: "assistants started ''4711''
       = Some \<lparr>assistant_id = ''asst_1'', instructions = ''Be brief.'',
               assistant_tools = [''edit_tenant'']\<rparr>"
    by (simp add: started_eq boot_def)
  have d: "api_assistants started
             (assistant_id \<lparr>assistant_id = ''asst_1'', instructions = ''Be brief.'',
                            assistant_tools = [''edit_tenant'']\<rparr>)
       = Some \<lparr>assistant_id = ''asst_1'', instructions = ''Be brief.'',
               assistant_tools = [''edit_tenant'']\<rparr>"
    by (simp add: started_eq boot_def)
  have e: "length (filter (\<lambda>x. number x = ''4711'') (tenants started)) = 1"
    by (simp add: started_eq boot_def)
  from edit_tenant_updates_agent_in_place[OF a b c d,
         of "\<lparr>et_system = Some ''Be verbose.'', et_timezone = None\<rparr>"] a b c e
  show ?thesis by (simp add: coalesce_def)
qed



end
